theory Spec2Isabelle
  imports Main "HOL-Library.Sublist"
begin

section \<open>Values\<close>

text \<open>
  The drawer displays a Kubernetes resource: a deserialized resource description, that
  is a finite tree of mappings, sequences, scalars and null. A mapping is the list of
  its members in the order in which \<^verbatim>\<open>Object.keys\<close> enumerates them. A property
  that holds \<^verbatim>\<open>undefined\<close> behaves like a property that is not there in
  everything below, so \<^verbatim>\<open>undefined\<close> is not a value of its own: a lookup or a
  replacer that yields \<^verbatim>\<open>undefined\<close> yields \<open>None\<close>. Numbers are the
  integers; a fractional number prints with digits, a sign, a point and an exponent, and
  nothing below depends on more than that.

  The same trees stand for the texts that \<^verbatim>\<open>JSON.stringify\<close> and
  \<^verbatim>\<open>jsYaml.dump\<close> write: a text is represented by the document it denotes, and
  \<^verbatim>\<open>JSON.parse\<close> of the text of a document returns that document.
\<close>

datatype jsvalue =
    JNull
  | JBool bool
  | JNum int
  | JStr string
  | JArr "jsvalue list"
  | JObj "(string \<times> jsvalue) list"

text \<open>
  What \<^verbatim>\<open>formatClusterLink\<close> throws is an \<^verbatim>\<open>Error\<close> instance: its
  \<^verbatim>\<open>name\<close> and its \<^verbatim>\<open>message\<close>. A computation that can throw returns
  a sum, with \<open>Inl\<close> for what is thrown.
\<close>

datatype jsError = Error (errName: string) (errMessage: string)

text \<open>\<^verbatim>\<open>Error.prototype.toString\<close>.\<close>

definition errorToString :: "jsError \<Rightarrow> string" where
  "errorToString err =
     (if errName err = [] then errMessage err
      else if errMessage err = [] then errName err
      else errName err @ '': '' @ errMessage err)"

text \<open>
  What the language itself throws in the code below, by its kind; the wording of the
  message is the engine's.
\<close>

datatype jsException = SyntaxError | TypeError

text \<open>
  A loop over a list that stops at the first element on which the body throws.
\<close>

primrec traverse :: "('a \<Rightarrow> jsException + 'b) \<Rightarrow> 'a list \<Rightarrow> jsException + 'b list" where
  "traverse f [] = Inr []"
| "traverse f (x # xs) =
     (case f x of
        Inl e \<Rightarrow> Inl e
      | Inr y \<Rightarrow> (case traverse f xs of Inl e \<Rightarrow> Inl e | Inr ys \<Rightarrow> Inr (y # ys)))"

lemma traverse_cong [fundef_cong]:
  "xs = ys \<Longrightarrow> (\<And>x. x \<in> set ys \<Longrightarrow> f x = g x) \<Longrightarrow> traverse f xs = traverse g ys"
  by (induction ys arbitrary: xs) (auto cong: sum.case_cong)

subsection \<open>String(value)\<close>

definition digitChar :: "nat \<Rightarrow> char" where
  "digitChar d =
     (if d = 0 then CHR ''0'' else if d = 1 then CHR ''1'' else if d = 2 then CHR ''2''
      else if d = 3 then CHR ''3'' else if d = 4 then CHR ''4''
      else if d = 5 then CHR ''5'' else if d = 6 then CHR ''6''
      else if d = 7 then CHR ''7'' else if d = 8 then CHR ''8'' else CHR ''9'')"

fun digits :: "nat \<Rightarrow> string" where
  "digits n = (if n < 10 then [digitChar n] else digits (n div 10) @ [digitChar (n mod 10)])"

declare digits.simps [simp del]

definition numberToString :: "int \<Rightarrow> string" where
  "numberToString n = (if n < 0 then CHR ''-'' # digits (nat (- n)) else digits (nat n))"

text \<open>\<^verbatim>\<open>Array.prototype.join\<close> on the strings of the elements.\<close>

fun join :: "string \<Rightarrow> string list \<Rightarrow> string" where
  "join sep [] = []"
| "join sep [x] = x"
| "join sep (x # y # ys) = x @ sep @ join sep (y # ys)"

text \<open>
  \<^verbatim>\<open>String(value)\<close>: an array is joined with commas, a null element giving the
  empty string. A plain object gives \<^verbatim>\<open>[object Object]\<close>, unless it has a
  member of its own named \<^verbatim>\<open>toString\<close>: the member is data and cannot be
  called, the inherited \<^verbatim>\<open>valueOf\<close> returns the object, and the conversion
  throws a \<^verbatim>\<open>TypeError\<close>.
\<close>

fun toString :: "jsvalue \<Rightarrow> jsException + string" where
  "toString JNull = Inr ''null''"
| "toString (JBool b) = Inr (if b then ''true'' else ''false'')"
| "toString (JNum n) = Inr (numberToString n)"
| "toString (JStr s) = Inr s"
| "toString (JArr xs) =
     (case traverse (\<lambda>x. case x of JNull \<Rightarrow> Inr [] | _ \<Rightarrow> toString x) xs of
        Inl e \<Rightarrow> Inl e
      | Inr ss \<Rightarrow> Inr (join '','' ss))"
| "toString (JObj kvs) =
     (if ''toString'' \<in> set (map fst kvs) then Inl TypeError else Inr ''[object Object]'')"

text \<open>The string that an element contributes to the join.\<close>

definition elementString :: "jsvalue \<Rightarrow> jsException + string" where
  "elementString x = (case x of JNull \<Rightarrow> Inr [] | _ \<Rightarrow> toString x)"

text \<open>The key under which a sequence element is visited: \<^verbatim>\<open>String(index)\<close>.\<close>

definition indexKey :: "nat \<Rightarrow> string" where
  "indexKey i = numberToString (int i)"

section \<open>The null normalizer\<close>

text \<open>
  \<^verbatim>\<open>
  function replaceNullsWithUndefined(someObj: any) {
    const replacer = (_: any, value: any) =>
      String(value) === 'null' || String(value) === 'undefined'
        ? undefined
        : value;
    return JSON.parse(JSON.stringify(someObj, replacer));
  }
  \<close>
\<close>

definition replacer :: "string \<Rightarrow> jsvalue \<Rightarrow> jsException + jsvalue option" where
  "replacer key val =
     (case toString val of
        Inl e \<Rightarrow> Inl e
      | Inr s \<Rightarrow> Inr (if s = ''null'' \<or> s = ''undefined'' then None else Some val))"

lemma replacer_Some: "replacer key val = Inr (Some v) \<Longrightarrow> v = val"
  by (simp add: replacer_def split: sum.splits if_splits)

lemma size_element: "x \<in> set xs \<Longrightarrow> size (x::jsvalue) < Suc (size_list size xs)"
  by (induction xs) auto

lemma size_indexed:
  "(i, x) \<in> set (zip ns xs) \<Longrightarrow> size (x::jsvalue) < Suc (size_list size xs)"
  by (auto dest: set_zip_rightD size_element)

lemma size_member:
  "(k, x) \<in> set kvs \<Longrightarrow>
     size (x::jsvalue) < Suc (size_list (size_prod (\<lambda>_. 0) size) kvs)"
  by (induction kvs) auto

text \<open>
  \<^verbatim>\<open>SerializeJSONProperty\<close> of \<^verbatim>\<open>JSON.stringify\<close> with this replacer: the
  replacer is called on the value found under the key, and what it returns is
  serialized, the members and the elements one after the other. \<open>None\<close> is
  \<^verbatim>\<open>undefined\<close>: a mapping member that serializes to \<^verbatim>\<open>undefined\<close> is
  left out, a sequence element that does is written as \<^verbatim>\<open>null\<close>. What the
  replacer throws is thrown by \<^verbatim>\<open>JSON.stringify\<close>.
\<close>

function serializeJSONProperty :: "string \<Rightarrow> jsvalue \<Rightarrow> jsException + jsvalue option" where
  "serializeJSONProperty key holderValue =
     (case replacer key holderValue of
        Inl e \<Rightarrow> Inl e
      | Inr None \<Rightarrow> Inr None
      | Inr (Some (JArr xs)) \<Rightarrow>
          (case traverse (\<lambda>(i, x). case serializeJSONProperty (indexKey i) x of
                                      Inl e \<Rightarrow> Inl e
                                    | Inr None \<Rightarrow> Inr JNull
                                    | Inr (Some j) \<Rightarrow> Inr j)
                         (zip [0..<length xs] xs) of
             Inl e \<Rightarrow> Inl e
           | Inr ys \<Rightarrow> Inr (Some (JArr ys)))
      | Inr (Some (JObj kvs)) \<Rightarrow>
          (case traverse (\<lambda>(k, x). case serializeJSONProperty k x of
                                      Inl e \<Rightarrow> Inl e
                                    | Inr None \<Rightarrow> Inr []
                                    | Inr (Some j) \<Rightarrow> Inr [(k, j)])
                         kvs of
             Inl e \<Rightarrow> Inl e
           | Inr ms \<Rightarrow> Inr (Some (JObj (concat ms))))
      | Inr (Some v) \<Rightarrow> Inr (Some v))"
  by pat_completeness auto
termination
  by (relation "measure (\<lambda>(k, v). size v)")
     (auto dest!: replacer_Some dest: size_indexed size_member)

declare serializeJSONProperty.simps [simp del]

text \<open>\<^verbatim>\<open>JSON.stringify(someObj, replacer)\<close> starts at the wrapper's key, the empty string.\<close>

definition JSON_stringify :: "jsvalue \<Rightarrow> jsException + jsvalue option" where
  "JSON_stringify someObj = serializeJSONProperty [] someObj"

text \<open>
  \<^verbatim>\<open>JSON.parse\<close>: given \<^verbatim>\<open>undefined\<close> it parses the text
  \<^verbatim>\<open>undefined\<close>, which is not JSON, and throws a \<^verbatim>\<open>SyntaxError\<close>.
\<close>

definition JSON_parse :: "jsvalue option \<Rightarrow> jsException + jsvalue" where
  "JSON_parse text = (case text of None \<Rightarrow> Inl SyntaxError | Some j \<Rightarrow> Inr j)"

definition replaceNullsWithUndefined :: "jsvalue \<Rightarrow> jsException + jsvalue" where
  "replaceNullsWithUndefined someObj =
     (case JSON_stringify someObj of Inl e \<Rightarrow> Inl e | Inr text \<Rightarrow> JSON_parse text)"

text \<open>A value is removable when its string form is \<^verbatim>\<open>null\<close> or \<^verbatim>\<open>undefined\<close>.\<close>

definition removable :: "jsvalue \<Rightarrow> bool" where
  "removable v = (toString v = Inr ''null'' \<or> toString v = Inr ''undefined'')"

text \<open>
  The visitor that the serialization amounts to on a value that is not removable:
  removable members are dropped, removable elements become null.
\<close>

fun strip :: "jsvalue \<Rightarrow> jsvalue" where
  "strip (JArr xs) = JArr (map (\<lambda>x. if removable x then JNull else strip x) xs)"
| "strip (JObj kvs) =
     JObj (map (\<lambda>(k, x). (k, strip x)) (filter (\<lambda>(k, x). \<not> removable x) kvs))"
| "strip v = v"

text \<open>
  Whether the serialization throws: the string conversion of the value throws, or the
  value is kept and the serialization of one of its members or elements throws.
\<close>

fun fails :: "jsvalue \<Rightarrow> bool" where
  "fails (JArr xs) =
     (if toString (JArr xs) = Inl TypeError then True
      else if removable (JArr xs) then False
      else list_ex fails xs)"
| "fails (JObj kvs) =
     (if toString (JObj kvs) = Inl TypeError then True
      else list_ex (\<lambda>(k, x). fails x) kvs)"
| "fails v = False"

text \<open>What is written for a sequence element and for a mapping member.\<close>

definition writeElement :: "jsException + jsvalue option \<Rightarrow> jsException + jsvalue" where
  "writeElement r =
     (case r of Inl e \<Rightarrow> Inl e | Inr None \<Rightarrow> Inr JNull | Inr (Some j) \<Rightarrow> Inr j)"

definition writeMember ::
  "string \<Rightarrow> jsException + jsvalue option \<Rightarrow> jsException + (string \<times> jsvalue) list" where
  "writeMember k r =
     (case r of Inl e \<Rightarrow> Inl e | Inr None \<Rightarrow> Inr [] | Inr (Some j) \<Rightarrow> Inr [(k, j)])"

text \<open>
  What the output of the normalizer is examined for: a removable value as a member of a
  mapping or as an element of a sequence, at any depth.
\<close>

fun hasRemovableNode :: "jsvalue \<Rightarrow> bool" where
  "hasRemovableNode (JArr xs) = list_ex (\<lambda>x. removable x \<or> hasRemovableNode x) xs"
| "hasRemovableNode (JObj kvs) =
     list_ex (\<lambda>(k, x). removable x \<or> hasRemovableNode x) kvs"
| "hasRemovableNode v = False"

section \<open>The YAML projection\<close>

text \<open>
  \<^verbatim>\<open>
  jsYaml.dump(object, {
    replacer: (key: string, value: string): any => {
      if (!managedFields) {
        return key === 'managedFields' ? undefined : value;
      }
      return value;
    },
  })
  \<close>
\<close>

definition yamlReplacer :: "bool \<Rightarrow> string \<Rightarrow> jsvalue \<Rightarrow> jsvalue option" where
  "yamlReplacer showManagedFields key val =
     (if \<not> showManagedFields then (if key = ''managedFields'' then None else Some val)
      else Some val)"

lemma yamlReplacer_Some: "yamlReplacer showManagedFields key val = Some v \<Longrightarrow> v = val"
  by (simp add: yamlReplacer_def split: if_splits)

text \<open>
  The dumper of js-yaml 4 with a replacer: in a mapping the replacer is called with each
  key and its value, and a pair whose value has become \<^verbatim>\<open>undefined\<close> is
  skipped; in a sequence it is called with \<^verbatim>\<open>String(index)\<close> and the
  element, and an element that has become \<^verbatim>\<open>undefined\<close> is written as null.
  The members are visited in the order of \<^verbatim>\<open>Object.keys\<close>
  (\<^verbatim>\<open>sortKeys\<close> is off).
\<close>

function writeNode :: "bool \<Rightarrow> jsvalue \<Rightarrow> jsvalue" where
  "writeNode showManagedFields (JObj kvs) =
     JObj (concat (map (\<lambda>(k, x). case yamlReplacer showManagedFields k x of
                                   None \<Rightarrow> []
                                 | Some v \<Rightarrow> [(k, writeNode showManagedFields v)])
                       kvs))"
| "writeNode showManagedFields (JArr xs) =
     JArr (map (\<lambda>(i, x). case yamlReplacer showManagedFields (indexKey i) x of
                            None \<Rightarrow> JNull
                          | Some v \<Rightarrow> writeNode showManagedFields v)
               (zip [0..<length xs] xs))"
| "writeNode showManagedFields JNull = JNull"
| "writeNode showManagedFields (JBool b) = JBool b"
| "writeNode showManagedFields (JNum n) = JNum n"
| "writeNode showManagedFields (JStr s) = JStr s"
  by pat_completeness auto
termination
  by (relation "measure (\<lambda>(f, v). size v)")
     (auto dest!: yamlReplacer_Some dest: size_indexed size_member)

text \<open>
  \<^verbatim>\<open>dump\<close> calls the replacer on the input under the empty key; when nothing
  is written the text is empty, which is \<open>None\<close> here.
\<close>

definition jsYaml_dump :: "bool \<Rightarrow> jsvalue \<Rightarrow> jsvalue option" where
  "jsYaml_dump showManagedFields input =
     (case yamlReplacer showManagedFields [] input of
        None \<Rightarrow> None
      | Some v \<Rightarrow> Some (writeNode showManagedFields v))"

text \<open>A key occurring in a document, at any depth.\<close>

fun hasKey :: "string \<Rightarrow> jsvalue \<Rightarrow> bool" where
  "hasKey key (JObj kvs) = list_ex (\<lambda>(k, x). k = key \<or> hasKey key x) kvs"
| "hasKey key (JArr xs) = list_ex (hasKey key) xs"
| "hasKey key v = False"

text \<open>
  The paths of a document in document order: one for every mapping member and every
  sequence element, each the keys and indices that lead to it.
\<close>

function keyPaths :: "jsvalue \<Rightarrow> string list list" where
  "keyPaths (JObj kvs) = concat (map (\<lambda>(k, x). [k] # map ((#) k) (keyPaths x)) kvs)"
| "keyPaths (JArr xs) =
     concat (map (\<lambda>(i, x). [indexKey i] # map ((#) (indexKey i)) (keyPaths x))
                 (zip [0..<length xs] xs))"
| "keyPaths JNull = []"
| "keyPaths (JBool b) = []"
| "keyPaths (JNum n) = []"
| "keyPaths (JStr s) = []"
  by pat_completeness auto
termination
  by (relation "measure size") (auto dest: size_indexed size_member)

text \<open>
  The order of the members of an object. \<^verbatim>\<open>Object.keys\<close> lists first the keys
  that are array indices (the canonical decimal strings of the numbers below
  \<^verbatim>\<open>2^32 - 1\<close>), in ascending numeric order, and then the other keys in the
  order in which the properties were created.
\<close>

definition digitValue :: "char \<Rightarrow> nat option" where
  "digitValue c = List.find (\<lambda>d. digitChar d = c) [0, 1, 2, 3, 4, 5, 6, 7, 8, 9]"

primrec parseDecimal :: "nat \<Rightarrow> string \<Rightarrow> nat option" where
  "parseDecimal acc [] = Some acc"
| "parseDecimal acc (c # cs) =
     (case digitValue c of None \<Rightarrow> None | Some d \<Rightarrow> parseDecimal (10 * acc + d) cs)"

definition arrayIndex :: "string \<Rightarrow> nat option" where
  "arrayIndex key =
     (case parseDecimal 0 key of
        None \<Rightarrow> None
      | Some n \<Rightarrow> if numberToString (int n) = key \<and> n < 4294967295 then Some n else None)"

definition isArrayIndex :: "string \<Rightarrow> bool" where
  "isArrayIndex key = (case arrayIndex key of None \<Rightarrow> False | Some n \<Rightarrow> True)"

definition indexOrder :: "string \<Rightarrow> nat" where
  "indexOrder key = (case arrayIndex key of None \<Rightarrow> 0 | Some n \<Rightarrow> n)"

text \<open>
  From the members in the order of their creation, each key created once, to the
  members in the order of \<^verbatim>\<open>Object.keys\<close>; and the object that has them.
\<close>

definition ownPropertyKeys :: "(string \<times> 'v) list \<Rightarrow> (string \<times> 'v) list" where
  "ownPropertyKeys created =
     sort_key (\<lambda>(k, v). indexOrder k) (filter (\<lambda>(k, v). isArrayIndex k) created)
     @ filter (\<lambda>(k, v). \<not> isArrayIndex k) created"

definition objectOf :: "(string \<times> jsvalue) list \<Rightarrow> jsvalue" where
  "objectOf created = JObj (ownPropertyKeys created)"

section \<open>The cluster link\<close>

text \<open>
  The fields of \<^verbatim>\<open>ClusterAttributes\<close> carry the prefix \<open>cluster_\<close>: the
  options below have fields of the same names.
\<close>

record ClusterAttributes =
  cluster_name :: string
  cluster_dashboardUrl :: "string option"
  cluster_dashboardApp :: "string option"
  cluster_dashboardParameters :: "jsvalue option"

record FormatClusterLinkOptions =
  dashboardUrl :: "string option"
  dashboardApp :: "string option"
  dashboardParameters :: "jsvalue option"
  object :: jsvalue
  kind :: string

record FormatResult =
  clusterLink :: string
  errorMessage :: string

text \<open>
  \<^verbatim>\<open>
  function tryFormatClusterLink(options: FormatClusterLinkOptions) {
    try {
      return { clusterLink: formatClusterLink(options), errorMessage: '' };
    } catch (err) {
      return { clusterLink: '', errorMessage: err.message || err.toString() };
    }
  }
  \<close>
  The imported \<^verbatim>\<open>formatClusterLink\<close> is the first argument.
\<close>

definition tryFormatClusterLink ::
  "(FormatClusterLinkOptions \<Rightarrow> jsError + string) \<Rightarrow> FormatClusterLinkOptions
     \<Rightarrow> jsError + FormatResult" where
  "tryFormatClusterLink formatClusterLink options =
     (case formatClusterLink options of
        Inr link \<Rightarrow> Inr \<lparr>clusterLink = link, errorMessage = []\<rparr>
      | Inl err \<Rightarrow>
          Inr \<lparr>clusterLink = [],
               errorMessage = (if errMessage err \<noteq> [] then errMessage err
                               else errorToString err)\<rparr>)"

text \<open>
  The call in \<^verbatim>\<open>KubernetesDrawerContent\<close>: the options are the cluster's
  dashboard settings, the object and the kind; the cluster's name is not among them.
\<close>

definition formatOptions ::
  "ClusterAttributes \<Rightarrow> jsvalue \<Rightarrow> string \<Rightarrow> FormatClusterLinkOptions" where
  "formatOptions cluster obj k =
     \<lparr>dashboardUrl = cluster_dashboardUrl cluster,
      dashboardApp = cluster_dashboardApp cluster,
      dashboardParameters = cluster_dashboardParameters cluster,
      object = obj,
      kind = k\<rparr>"

text \<open>\<^verbatim>\<open>cluster.dashboardApp || 'standard'\<close>.\<close>

definition dashboardAppOrStandard :: "string option \<Rightarrow> string" where
  "dashboardAppOrStandard app =
     (case app of None \<Rightarrow> ''standard'' | Some a \<Rightarrow> if a = [] then ''standard'' else a)"

text \<open>
  Modelled from the spec: \<^verbatim>\<open>formatClusterLink\<close> of
  \<^verbatim>\<open>utils/clusterLinks\<close>, which the drawer imports. The spec gives a dashboard
  application identifier, drawn from a small enumerated set, that selects the
  URL-construction rules that apply, \<^verbatim>\<open>standard\<close> when none is configured; an
  unsupported identifier is a failure with a message describing the cause. The set of
  applications with their rules is the first argument.
\<close>

definition formatClusterLink ::
  "(string \<times> (FormatClusterLinkOptions \<Rightarrow> jsError + string)) list
     \<Rightarrow> FormatClusterLinkOptions \<Rightarrow> jsError + string" where
  "formatClusterLink clusterLinksFormatters options =
     (case map_of clusterLinksFormatters (dashboardAppOrStandard (dashboardApp options)) of
        None \<Rightarrow>
          Inl (Error ''Error''
                 (''Could not find Kubernetes dashboard app named '' @ [CHR 0x27]
                    @ dashboardAppOrStandard (dashboardApp options) @ [CHR 0x27]))
      | Some formatter \<Rightarrow> formatter options)"

text \<open>
  \<^verbatim>\<open>ErrorPanel\<close>: the warning panel's title, its message, and the child that is
  rendered when there is an error message.
\<close>

record WarningPanel =
  title :: string
  message :: string
  children :: "string option"

definition ErrorPanel :: "ClusterAttributes \<Rightarrow> string option \<Rightarrow> WarningPanel" where
  "ErrorPanel cluster errorText =
     \<lparr>title = ''There was a problem formatting the link to the Kubernetes dashboard'',
      message = ''Could not format the link to the dashboard of your cluster named ''
        @ [CHR 0x27] @ cluster_name cluster @ [CHR 0x27]
        @ ''. Its dashboardApp property has been set to '' @ [CHR 0x27]
        @ dashboardAppOrStandard (cluster_dashboardApp cluster) @ ''.'' @ [CHR 0x27],
      children = (case errorText of
                    None \<Rightarrow> None
                  | Some m \<Rightarrow> if m = [] then None else Some (''Errors: '' @ m))\<rparr>"

text \<open>
  \<^verbatim>\<open>{errorMessage && (<ErrorPanel cluster={cluster} errorMessage={errorMessage} />)}\<close>.
\<close>

definition errorPanelShown :: "ClusterAttributes \<Rightarrow> FormatResult \<Rightarrow> WarningPanel option" where
  "errorPanelShown cluster r =
     (if errorMessage r = [] then None else Some (ErrorPanel cluster (Some (errorMessage r))))"

section \<open>The drawer\<close>

text \<open>
  Reading a property: of null it throws a \<^verbatim>\<open>TypeError\<close>; of a mapping it gives
  the member, \<open>None\<close> when there is none. The drawer reads \<^verbatim>\<open>metadata\<close> and
  \<^verbatim>\<open>name\<close>, which a scalar or a sequence does not have.
\<close>

definition getProperty :: "jsvalue \<Rightarrow> string \<Rightarrow> jsException + jsvalue option" where
  "getProperty v key =
     (case v of
        JNull \<Rightarrow> Inl TypeError
      | JObj kvs \<Rightarrow> Inr (map_of kvs key)
      | _ \<Rightarrow> Inr None)"

text \<open>\<^verbatim>\<open>object.metadata?.name\<close>.\<close>

definition metadataName :: "jsvalue \<Rightarrow> jsException + jsvalue option" where
  "metadataName obj =
     (case getProperty obj ''metadata'' of
        Inl e \<Rightarrow> Inl e
      | Inr None \<Rightarrow> Inr None
      | Inr (Some JNull) \<Rightarrow> Inr None
      | Inr (Some metadata) \<Rightarrow> getProperty metadata ''name'')"

text \<open>\<^verbatim>\<open>value ?? fallback\<close>.\<close>

definition nullish :: "jsvalue option \<Rightarrow> jsvalue \<Rightarrow> jsvalue" where
  "nullish val fallback = (case val of None \<Rightarrow> fallback | Some JNull \<Rightarrow> fallback | Some v \<Rightarrow> v)"

text \<open>
  The heading of the drawer's content,
  \<^verbatim>\<open>{object.metadata?.name ?? 'unknown name'}\<close>.
\<close>

definition headerTitle :: "jsvalue \<Rightarrow> jsException + jsvalue" where
  "headerTitle obj =
     (case metadataName obj of
        Inl e \<Rightarrow> Inl e
      | Inr n \<Rightarrow> Inr (nullish n (JStr ''unknown name'')))"

text \<open>
  What the button that opens the drawer shows: the children when there are any, else
  \<^verbatim>\<open>{object.metadata?.name ?? 'unknown object'}\<close>.
\<close>

datatype 'c ButtonLabel = Typography jsvalue | Children 'c

definition triggerLabel :: "'c option \<Rightarrow> jsvalue \<Rightarrow> jsException + 'c ButtonLabel" where
  "triggerLabel buttonChildren obj =
     (case buttonChildren of
        None \<Rightarrow>
          (case metadataName obj of
             Inl e \<Rightarrow> Inl e
           | Inr n \<Rightarrow> Inr (Typography (nullish n (JStr ''unknown object''))))
      | Some c \<Rightarrow> Inr (Children c))"

text \<open>
  The state of the drawer's content: \<^verbatim>\<open>useState(false)\<close> twice. The YAML
  switch stores what it is set to; the managed-fields switch stores it only while the
  YAML is shown, and is rendered checked only then.
\<close>

record DrawerContentState =
  isYaml :: bool
  managedFields :: bool

definition initialState :: DrawerContentState where
  "initialState = \<lparr>isYaml = False, managedFields = False\<rparr>"

datatype SwitchEvent = YamlChange bool | ManagedFieldsChange bool

fun onChange :: "SwitchEvent \<Rightarrow> DrawerContentState \<Rightarrow> DrawerContentState" where
  "onChange (YamlChange checked) s = s\<lparr>isYaml := checked\<rparr>"
| "onChange (ManagedFieldsChange checked) s =
     (if isYaml s then s\<lparr>managedFields := checked\<rparr> else s)"

definition managedFieldsSwitchChecked :: "DrawerContentState \<Rightarrow> bool" where
  "managedFieldsSwitchChecked s = (isYaml s \<and> managedFields s)"

text \<open>
  The content: the YAML text when the YAML is shown, else the table of what the host's
  \<^verbatim>\<open>renderObject\<close> makes of the normalized object.
\<close>

datatype 'm DrawerBody = CodeSnippet "jsvalue option" | StructuredMetadataTable 'm

definition drawerBody ::
  "(jsvalue \<Rightarrow> 'm) \<Rightarrow> DrawerContentState \<Rightarrow> jsvalue \<Rightarrow> jsException + 'm DrawerBody" where
  "drawerBody renderObject s obj =
     (if isYaml s then Inr (CodeSnippet (jsYaml_dump (managedFields s) obj))
      else (case replaceNullsWithUndefined obj of
              Inl e \<Rightarrow> Inl e
            | Inr normalized \<Rightarrow> Inr (StructuredMetadataTable (renderObject normalized))))"

text \<open>
  Whether a path is written by the projection: with managed fields shown every path is,
  without them the paths that do not go through the key \<^verbatim>\<open>managedFields\<close>.
\<close>

definition shown :: "bool \<Rightarrow> string list \<Rightarrow> bool" where
  "shown showManagedFields p =
     (if showManagedFields then True else ''managedFields'' \<notin> set p)"

text \<open>
  For the examples: a set of applications with the single application
  \<^verbatim>\<open>standard\<close>, whose rule gives the configured dashboard URL as the link.
\<close>

definition exampleFormatters ::
  "(string \<times> (FormatClusterLinkOptions \<Rightarrow> jsError + string)) list" where
  "exampleFormatters =
     [(''standard'',
       \<lambda>options. case dashboardUrl options of
                    None \<Rightarrow> Inl (Error ''Error'' ''No dashboard URL'')
                  | Some url \<Rightarrow> Inr url)]"

text \<open>For the examples: a \<^verbatim>\<open>formatClusterLink\<close> that returns the empty string.\<close>

definition emptyLinkFormatter :: "FormatClusterLinkOptions \<Rightarrow> jsError + string" where
  "emptyLinkFormatter options = Inr []"

definition exampleCluster :: "string option \<Rightarrow> ClusterAttributes" where
  "exampleCluster app =
     \<lparr>cluster_name = ''prod'',
      cluster_dashboardUrl = Some ''https://k8s.example/dashboard'',
      cluster_dashboardApp = app,
      cluster_dashboardParameters = None\<rparr>"

section \<open>Strings of numbers and of sequences\<close>

lemma digitChar_cases: "digitChar d \<in> set ''0123456789''"
  by (simp add: digitChar_def)

lemma digits_chars: "set (digits n) \<subseteq> set ''0123456789''"
proof (induction n rule: digits.induct)
  case (1 n)
  show ?case
  proof (cases "n < 10")
    case True
    then show ?thesis using digitChar_cases [of n] by (subst digits.simps) simp
  next
    case False
    then show ?thesis
      using 1 digitChar_cases [of "n mod 10"] by (subst digits.simps) simp
  qed
qed

lemma digits_no_letter:
  "CHR ''n'' \<notin> set (digits n)" "CHR ''u'' \<notin> set (digits n)" "CHR ''m'' \<notin> set (digits n)"
proof -
  have "CHR ''n'' \<notin> set ''0123456789''" "CHR ''u'' \<notin> set ''0123456789''"
    "CHR ''m'' \<notin> set ''0123456789''" by simp_all
  with digits_chars [of n]
  show "CHR ''n'' \<notin> set (digits n)" "CHR ''u'' \<notin> set (digits n)"
    "CHR ''m'' \<notin> set (digits n)" by blast+
qed

lemma numberToString_no_letter:
  "CHR ''n'' \<notin> set (numberToString k)" "CHR ''u'' \<notin> set (numberToString k)"
  "CHR ''m'' \<notin> set (numberToString k)"
  by (simp_all add: numberToString_def digits_no_letter)

lemma numberToString_not_literal:
  "numberToString k \<noteq> ''null''" "numberToString k \<noteq> ''undefined''"
  "numberToString k \<noteq> ''managedFields''"
proof -
  show "numberToString k \<noteq> ''null''"
  proof
    assume "numberToString k = ''null''"
    then have "CHR ''n'' \<in> set (numberToString k)" by simp
    with numberToString_no_letter(1) show False by blast
  qed
  show "numberToString k \<noteq> ''undefined''"
  proof
    assume "numberToString k = ''undefined''"
    then have "CHR ''u'' \<in> set (numberToString k)" by simp
    with numberToString_no_letter(2) show False by blast
  qed
  show "numberToString k \<noteq> ''managedFields''"
  proof
    assume "numberToString k = ''managedFields''"
    then have "CHR ''m'' \<in> set (numberToString k)" by simp
    with numberToString_no_letter(3) show False by blast
  qed
qed

lemma join_comma:
  "2 \<le> length ss \<Longrightarrow> CHR '','' \<in> set (join sep ss) \<or> CHR '','' \<notin> set sep"
  by (induction sep ss rule: join.induct) auto

lemma join_literal:
  assumes "join '','' ss = t" and "CHR '','' \<notin> set t" and "t \<noteq> []"
  shows "ss = [t]"
proof (cases ss)
  case Nil
  with assms show ?thesis by simp
next
  case (Cons s rest)
  show ?thesis
  proof (cases rest)
    case Nil
    with Cons assms show ?thesis by simp
  next
    case (Cons r rest')
    with \<open>ss = s # rest\<close> have "2 \<le> length ss" by simp
    from join_comma [OF this, of "'',''"] assms show ?thesis by simp
  qed
qed


lemma traverse_map:
  "(\<And>x. x \<in> set xs \<Longrightarrow> f x = Inr (g x)) \<Longrightarrow> traverse f xs = Inr (map g xs)"
  by (induction xs) simp_all

lemma traverse_Cons_Inr:
  "traverse f (x # xs) = Inr zs \<longleftrightarrow>
     (\<exists>y ys. f x = Inr y \<and> traverse f xs = Inr ys \<and> zs = y # ys)"
  by (cases "f x"; cases "traverse f xs") auto

lemma traverse_Inr: "traverse f xs = Inr ys \<longleftrightarrow> list_all2 (\<lambda>x y. f x = Inr y) xs ys"
proof (induction xs arbitrary: ys)
  case Nil
  show ?case by auto
next
  case (Cons a xs)
  have "traverse f (a # xs) = Inr ys \<longleftrightarrow>
      (\<exists>y zs. f a = Inr y \<and> traverse f xs = Inr zs \<and> ys = y # zs)"
    by (rule traverse_Cons_Inr)
  also have "\<dots> \<longleftrightarrow> (\<exists>y zs. f a = Inr y \<and> list_all2 (\<lambda>x y. f x = Inr y) xs zs \<and> ys = y # zs)"
    by (simp only: Cons.IH)
  also have "\<dots> \<longleftrightarrow> list_all2 (\<lambda>x y. f x = Inr y) (a # xs) ys"
    by (simp only: list_all2_Cons1) blast
  finally show ?case .
qed

lemma traverse_Inl: "traverse f xs = Inl e \<Longrightarrow> \<exists>x \<in> set xs. f x = Inl e"
proof (induction xs)
  case Nil
  then show ?case by simp
next
  case (Cons a xs)
  show ?case
  proof (cases "f a")
    case (Inl e')
    with Cons.prems show ?thesis by simp
  next
    case (Inr y)
    with Cons.prems have "traverse f xs = Inl e" by (simp split: sum.splits)
    with Cons.IH show ?thesis by auto
  qed
qed

lemma traverse_fails:
  assumes "x \<in> set xs" and "f x = Inl TypeError"
    and "\<And>y e. y \<in> set xs \<Longrightarrow> f y = Inl e \<Longrightarrow> e = TypeError"
  shows "traverse f xs = Inl TypeError"
proof (cases "traverse f xs")
  case (Inl e)
  with traverse_Inl [of f xs e] assms(3) show ?thesis by auto
next
  case (Inr ys)
  then have "list_all2 (\<lambda>x y. f x = Inr y) xs ys" by (simp add: traverse_Inr)
  with assms(1) obtain y where "f x = Inr y" by (auto simp: list_all2_conv_all_nth in_set_conv_nth)
  with assms(2) show ?thesis by simp
qed

lemma toString_array: "toString (JArr xs) =
  (case traverse elementString xs of Inl e \<Rightarrow> Inl e | Inr ss \<Rightarrow> Inr (join '','' ss))"
  by (simp add: elementString_def [abs_def])

declare toString.simps(5) [simp del]

lemma toString_TypeError: "toString v = Inl e \<Longrightarrow> e = TypeError"
proof (induction v arbitrary: e)
  case (JArr xs)
  then have "traverse elementString xs = Inl e"
    by (simp add: toString_array split: sum.splits)
  then obtain x where "x \<in> set xs" "elementString x = Inl e"
    by (auto dest: traverse_Inl)
  with JArr.IH [of x e] show ?case by (cases x) (auto simp: elementString_def)
next
  case (JObj kvs)
  then show ?case by (cases "''toString'' \<in> set (map fst kvs)") simp_all
qed simp_all

lemma elementString_TypeError: "elementString v = Inl e \<Longrightarrow> e = TypeError"
  using toString_TypeError [of v e] by (cases v) (simp_all add: elementString_def)

lemma elementString_removable:
  "elementString x = Inr ''null'' \<or> elementString x = Inr ''undefined''
     \<longleftrightarrow> x \<noteq> JNull \<and> removable x"
  by (cases x) (simp_all add: elementString_def removable_def)

lemma removable_array:
  "removable (JArr xs) \<longleftrightarrow> (\<exists>x. xs = [x] \<and> x \<noteq> JNull \<and> removable x)"
proof
  assume r: "removable (JArr xs)"
  then obtain ss t where t: "traverse elementString xs = Inr ss" "join '','' ss = t"
      "t = ''null'' \<or> t = ''undefined''"
    unfolding removable_def toString_array by (auto split: sum.splits)
  from t(3) have "CHR '','' \<notin> set t" "t \<noteq> []" by auto
  with t(2) have "ss = [t]" by (rule join_literal)
  with t(1) obtain x where x: "xs = [x]" "elementString x = Inr t"
    by (auto simp: traverse_Inr list_all2_Cons2)
  with t(3) elementString_removable [of x] have "x \<noteq> JNull \<and> removable x" by auto
  with x show "\<exists>x. xs = [x] \<and> x \<noteq> JNull \<and> removable x" by blast
next
  assume "\<exists>x. xs = [x] \<and> x \<noteq> JNull \<and> removable x"
  then obtain x where x: "xs = [x]" "x \<noteq> JNull \<and> removable x" by blast
  with elementString_removable [of x]
  have "elementString x = Inr ''null'' \<or> elementString x = Inr ''undefined''" by blast
  with x(1) show "removable (JArr xs)" unfolding removable_def toString_array by auto
qed

lemma removable_simps [simp]:
  "removable JNull" "\<not> removable (JBool b)" "\<not> removable (JNum n)"
  "\<not> removable (JObj kvs)" "removable (JStr s) \<longleftrightarrow> s = ''null'' \<or> s = ''undefined''"
  using numberToString_not_literal [of n] by (simp_all add: removable_def)

lemma replacer_eq:
  "replacer key v =
     (if toString v = Inl TypeError then Inl TypeError
      else if removable v then Inr None else Inr (Some v))"
  by (auto simp: replacer_def removable_def split: sum.splits dest: toString_TypeError)

lemma map_indexed: "map (\<lambda>(i, x). f x) (zip [0..<length xs] xs) = map f xs"
proof -
  have e: "map snd (zip [0..<length xs] xs) = xs" by (rule map_snd_zip) simp
  have "map (\<lambda>(i, x). f x) (zip [0..<length xs] xs)
      = map (f \<circ> snd) (zip [0..<length xs] xs)"
    by (rule map_cong) auto
  also have "\<dots> = map f (map snd (zip [0..<length xs] xs))" by (simp only: map_map)
  also have "\<dots> = map f xs" by (simp only: e)
  finally show ?thesis .
qed

section \<open>The normalizer as a visitor\<close>

text \<open>
  The serialization throws where \<open>fails\<close> says it does; otherwise that of a
  removable value is \<^verbatim>\<open>undefined\<close>, and that of any other value is the value
  visited by \<open>strip\<close>, whatever the key.
\<close>

lemma toString_fails: "toString v = Inl TypeError \<Longrightarrow> fails v"
  by (cases v) simp_all

lemma indexed_member: "x \<in> set xs \<Longrightarrow> \<exists>i. (i, x) \<in> set (zip [0..<length xs] xs)"
proof -
  assume "x \<in> set xs"
  then obtain i where i: "i < length xs" "xs ! i = x" by (auto simp: in_set_conv_nth)
  then have "(i, x) \<in> set (zip [0..<length xs] xs)"
    by (simp add: in_set_zip) (rule exI [of _ i], simp)
  then show ?thesis ..
qed

lemma serialize_cases:
  "serializeJSONProperty key v =
     (case replacer key v of
        Inl e \<Rightarrow> Inl e
      | Inr None \<Rightarrow> Inr None
      | Inr (Some (JArr xs)) \<Rightarrow>
          (case traverse (\<lambda>(i, x). writeElement (serializeJSONProperty (indexKey i) x))
                  (zip [0..<length xs] xs) of
             Inl e \<Rightarrow> Inl e
           | Inr ys \<Rightarrow> Inr (Some (JArr ys)))
      | Inr (Some (JObj kvs)) \<Rightarrow>
          (case traverse (\<lambda>(k, x). writeMember k (serializeJSONProperty k x)) kvs of
             Inl e \<Rightarrow> Inl e
           | Inr ms \<Rightarrow> Inr (Some (JObj (concat ms))))
      | Inr (Some w) \<Rightarrow> Inr (Some w))"
  unfolding writeElement_def writeMember_def by (rule serializeJSONProperty.simps)

lemma serialize_sequence:
  assumes ih: "\<And>i x. (i, x) \<in> set (zip [0..<length xs] xs) \<Longrightarrow>
      serializeJSONProperty (indexKey i) x =
        (if fails x then Inl TypeError
         else if removable x then Inr None else Inr (Some (strip x)))"
  shows "traverse (\<lambda>(i, x). writeElement (serializeJSONProperty (indexKey i) x))
           (zip [0..<length xs] xs) =
         (if list_ex fails xs then Inl TypeError
          else Inr (map (\<lambda>x. if removable x then JNull else strip x) xs))"
proof -
  let ?g = "\<lambda>(i, x). writeElement (serializeJSONProperty (indexKey i) x)"
  let ?zs = "zip [0..<length xs] xs"
  have g: "?g (i, x) = (if fails x then Inl TypeError
             else Inr (if removable x then JNull else strip x))"
    if "(i, x) \<in> set ?zs" for i x
    by (simp add: ih [OF that] writeElement_def)
  show ?thesis
  proof (cases "list_ex fails xs")
    case True
    then obtain x where x: "x \<in> set xs" "fails x" unfolding list_ex_iff by blast
    from indexed_member [OF x(1)] obtain i where i: "(i, x) \<in> set ?zs" by blast
    have "traverse ?g ?zs = Inl TypeError"
    proof (rule traverse_fails [OF i])
      show "?g (i, x) = Inl TypeError" by (simp only: g [OF i] x(2) if_True)
    next
      fix y e assume y: "y \<in> set ?zs" and e: "?g y = Inl e"
      obtain j z where yz: "y = (j, z)" by (cases y)
      from y yz have m: "(j, z) \<in> set ?zs" by (simp only:)
      from e yz have "?g (j, z) = Inl e" by (simp only:)
      then have "(if fails z then Inl TypeError
                  else Inr (if removable z then JNull else strip z)) = Inl e"
        by (simp only: g [OF m])
      then show "e = TypeError" by (cases "fails z") simp_all
    qed
    with True show ?thesis by simp
  next
    case nofail: False
    have "traverse ?g ?zs = Inr (map (\<lambda>(i, x). if removable x then JNull else strip x) ?zs)"
    proof (rule traverse_map)
      fix y assume y: "y \<in> set ?zs"
      obtain j z where yz: "y = (j, z)" by (cases y)
      with y have "z \<in> set xs" by (auto dest: set_zip_rightD)
      with nofail have "\<not> fails z" by (auto simp: list_ex_iff)
      with g [of j z] y yz
      show "?g y = Inr (case y of (i, x) \<Rightarrow> if removable x then JNull else strip x)"
        by simp
    qed
    also have "map (\<lambda>(i, x). if removable x then JNull else strip x) ?zs
        = map (\<lambda>x. if removable x then JNull else strip x) xs"
      by (rule map_indexed)
    finally show ?thesis using nofail by simp
  qed
qed

lemma serialize_mapping:
  assumes ih: "\<And>k x. (k, x) \<in> set kvs \<Longrightarrow>
      serializeJSONProperty k x =
        (if fails x then Inl TypeError
         else if removable x then Inr None else Inr (Some (strip x)))"
  shows "traverse (\<lambda>(k, x). writeMember k (serializeJSONProperty k x)) kvs =
         (if list_ex (\<lambda>(k, x). fails x) kvs then Inl TypeError
          else Inr (map (\<lambda>(k, x). if removable x then [] else [(k, strip x)]) kvs))"
proof -
  let ?g = "\<lambda>(k, x). writeMember k (serializeJSONProperty k x)"
  have g: "?g (k, x) = (if fails x then Inl TypeError
             else Inr (if removable x then [] else [(k, strip x)]))"
    if "(k, x) \<in> set kvs" for k x
    by (simp add: ih [OF that] writeMember_def)
  show ?thesis
  proof (cases "list_ex (\<lambda>(k, x). fails x) kvs")
    case True
    then obtain kx where kx: "kx \<in> set kvs" "(\<lambda>(k, x). fails x) kx"
      unfolding list_ex_iff by blast
    obtain k x where x0: "kx = (k, x)" by (cases kx)
    with kx have x: "(k, x) \<in> set kvs" "fails x" by simp_all
    have "traverse ?g kvs = Inl TypeError"
    proof (rule traverse_fails [OF x(1)])
      show "?g (k, x) = Inl TypeError" by (simp only: g [OF x(1)] x(2) if_True)
    next
      fix y e assume y: "y \<in> set kvs" and e: "?g y = Inl e"
      obtain j z where yz: "y = (j, z)" by (cases y)
      from y yz have m: "(j, z) \<in> set kvs" by (simp only:)
      from e yz have "?g (j, z) = Inl e" by (simp only:)
      then have "(if fails z then Inl TypeError
                  else Inr (if removable z then [] else [(j, strip z)])) = Inl e"
        by (simp only: g [OF m])
      then show "e = TypeError" by (cases "fails z") simp_all
    qed
    with True show ?thesis by simp
  next
    case nofail: False
    have "traverse ?g kvs = Inr (map (\<lambda>(k, x). if removable x then [] else [(k, strip x)]) kvs)"
    proof (rule traverse_map)
      fix y assume y: "y \<in> set kvs"
      obtain j z where yz: "y = (j, z)" by (cases y)
      with y nofail have "\<not> fails z" by (auto simp: list_ex_iff)
      with g [of j z] y yz
      show "?g y = Inr (case y of (k, x) \<Rightarrow> if removable x then [] else [(k, strip x)])"
        by simp
    qed
    with nofail show ?thesis by simp
  qed
qed

lemma concat_members:
  "concat (map (\<lambda>(k, x). if removable x then [] else [(k, strip x)]) kvs)
     = map (\<lambda>(k, x). (k, strip x)) (filter (\<lambda>(k, x). \<not> removable x) kvs)"
  by (induction kvs) auto

lemma removable_not_fails: "removable v \<Longrightarrow> \<not> fails v"
proof -
  assume r: "removable v"
  then have p: "toString v \<noteq> Inl TypeError" by (auto simp: removable_def)
  from p r show ?thesis by (cases v) simp_all
qed

lemma serialize_eq:
  "serializeJSONProperty key v =
     (if fails v then Inl TypeError
      else if removable v then Inr None else Inr (Some (strip v)))"
proof (induction key v rule: serializeJSONProperty.induct)
  case (1 key v)
  show ?case
  proof (cases "toString v = Inl TypeError")
    case True
    then have "replacer key v = Inl TypeError" by (simp add: replacer_eq)
    with True show ?thesis by (subst serialize_cases) (simp add: toString_fails)
  next
    case printable: False
    show ?thesis
    proof (cases "removable v")
      case True
      with printable have "replacer key v = Inr None" by (simp add: replacer_eq)
      with True show ?thesis by (subst serialize_cases) (simp add: removable_not_fails)
    next
      case False
      with printable have rep: "replacer key v = Inr (Some v)" by (simp add: replacer_eq)
      show ?thesis
      proof (cases v)
        case (JArr xs)
        have ih: "serializeJSONProperty (indexKey i) x =
            (if fails x then Inl TypeError
             else if removable x then Inr None else Inr (Some (strip x)))"
          if "(i, x) \<in> set (zip [0..<length xs] xs)" for i x
          by (rule 1(1) [OF rep refl JArr that refl])
        have fl: "fails (JArr xs) = list_ex fails xs" using printable False JArr by simp
        have "serializeJSONProperty key v =
            (case traverse (\<lambda>(i, x). writeElement (serializeJSONProperty (indexKey i) x))
                    (zip [0..<length xs] xs) of
               Inl e \<Rightarrow> Inl e
             | Inr ys \<Rightarrow> Inr (Some (JArr ys)))"
          using rep unfolding JArr by (subst serialize_cases) simp
        also have "\<dots> = (if list_ex fails xs then Inl TypeError
            else Inr (Some (JArr (map (\<lambda>x. if removable x then JNull else strip x) xs))))"
          by (simp add: serialize_sequence [OF ih])
        finally show ?thesis using False JArr fl by simp
      next
        case (JObj kvs)
        have ih: "serializeJSONProperty k x =
            (if fails x then Inl TypeError
             else if removable x then Inr None else Inr (Some (strip x)))"
          if "(k, x) \<in> set kvs" for k x
          by (rule 1(2) [OF rep refl JObj that refl])
        have fl: "fails (JObj kvs) = list_ex (\<lambda>(k, x). fails x) kvs"
          using printable JObj by simp
        have "serializeJSONProperty key v =
            (case traverse (\<lambda>(k, x). writeMember k (serializeJSONProperty k x)) kvs of
               Inl e \<Rightarrow> Inl e
             | Inr ms \<Rightarrow> Inr (Some (JObj (concat ms))))"
          using rep unfolding JObj by (subst serialize_cases) simp
        also have "\<dots> = (if list_ex (\<lambda>(k, x). fails x) kvs then Inl TypeError
            else Inr (Some (JObj (map (\<lambda>(k, x). (k, strip x))
                                   (filter (\<lambda>(k, x). \<not> removable x) kvs)))))"
          by (simp add: serialize_mapping [OF ih] concat_members)
        finally show ?thesis using False JObj fl by simp
      next
        case JNull
        with False show ?thesis by simp
      next
        case (JBool b)
        with rep show ?thesis by (subst serialize_cases) simp
      next
        case (JNum n)
        with rep show ?thesis by (subst serialize_cases) simp
      next
        case (JStr t)
        with rep False show ?thesis by (subst serialize_cases) simp
      qed
    qed
  qed
qed

lemma normalize_eq:
  "replaceNullsWithUndefined x =
     (if fails x then Inl TypeError
      else if removable x then Inl SyntaxError else Inr (strip x))"
  by (simp add: replaceNullsWithUndefined_def JSON_stringify_def JSON_parse_def serialize_eq)

lemma fails_sequence:
  "\<not> fails (JArr xs) \<Longrightarrow> \<not> removable (JArr xs) \<Longrightarrow> x \<in> set xs \<Longrightarrow> \<not> fails x"
  by (auto simp: list_ex_iff split: if_splits)

lemma fails_mapping: "\<not> fails (JObj kvs) \<Longrightarrow> (k, x) \<in> set kvs \<Longrightarrow> \<not> fails x"
  by (auto simp: list_ex_iff split: if_splits)

lemma sequence_printable:
  assumes "\<And>y. y \<in> set ys \<Longrightarrow> \<not> fails y"
  shows "toString (JArr ys) \<noteq> Inl TypeError"
proof
  assume "toString (JArr ys) = Inl TypeError"
  then have "traverse elementString ys = Inl TypeError"
    by (simp add: toString_array split: sum.splits)
  then obtain y where y: "y \<in> set ys" "elementString y = Inl TypeError"
    by (auto dest: traverse_Inl)
  from y(2) have "toString y = Inl TypeError" by (cases y) (simp_all add: elementString_def)
  with toString_fails assms [OF y(1)] show False by blast
qed

lemma strip_sound:
  "\<not> fails v \<Longrightarrow> \<not> removable v \<Longrightarrow> \<not> fails (strip v) \<and> \<not> removable (strip v)"
proof (induction v rule: strip.induct)
  case (1 xs)
  let ?f = "\<lambda>x. if removable x then JNull else strip x"
  have el: "\<not> fails (?f x) \<and> (?f x = JNull \<or> \<not> removable (?f x))" if "x \<in> set xs" for x
  proof (cases "removable x")
    case True
    then show ?thesis by simp
  next
    case False
    from fails_sequence [OF "1.prems" that] False "1.IH" [OF that False] show ?thesis by simp
  qed
  have nf: "\<not> fails y" if "y \<in> set (map ?f xs)" for y
  proof -
    from that obtain x where x: "x \<in> set xs" "y = ?f x" by auto
    from el [OF x(1)] have "\<not> fails (?f x)" ..
    with x(2) show ?thesis by blast
  qed
  have p: "toString (JArr (map ?f xs)) \<noteq> Inl TypeError"
    by (rule sequence_printable) (rule nf)
  have nr: "\<not> removable (JArr (map ?f xs))"
  proof
    assume "removable (JArr (map ?f xs))"
    then obtain y where y: "map ?f xs = [y]" "y \<noteq> JNull" "removable y"
      by (auto simp: removable_array)
    then obtain x where x: "xs = [x]" "y = ?f x" by (cases xs) auto
    with el [of x] y show False by simp
  qed
  from p nr nf have "\<not> fails (JArr (map ?f xs))" by (auto simp: list_ex_iff)
  with nr show ?case by simp
next
  case (2 kvs)
  let ?ms = "map (\<lambda>(k, x). (k, strip x)) (filter (\<lambda>(k, x). \<not> removable x) kvs)"
  from "2.prems"(1) have k: "''toString'' \<notin> set (map fst kvs)" by (auto split: if_splits)
  have "set (map fst ?ms) \<subseteq> set (map fst kvs)" by force
  with k have k': "''toString'' \<notin> set (map fst ?ms)" by blast
  have "\<not> fails (strip x)" if "(j, x) \<in> set kvs" "\<not> removable x" for j x
    using "2.IH" [of "(j, x)" j x] that fails_mapping [OF "2.prems"(1) that(1)] by simp
  then have "\<not> list_ex (\<lambda>(k, x). fails x) ?ms" by (auto simp: list_ex_iff)
  with k' show ?case by simp
qed simp_all

lemma strip_idem: "\<not> fails v \<Longrightarrow> \<not> removable v \<Longrightarrow> strip (strip v) = strip v"
proof (induction v rule: strip.induct)
  case (1 xs)
  have "map (\<lambda>y. if removable y then JNull else strip y)
          (map (\<lambda>x. if removable x then JNull else strip x) xs)
      = map (\<lambda>x. if removable x then JNull else strip x) xs"
    unfolding map_map
  proof (intro map_cong refl)
    fix x assume x: "x \<in> set xs"
    show "((\<lambda>y. if removable y then JNull else strip y) \<circ>
                (\<lambda>x. if removable x then JNull else strip x)) x
             = (if removable x then JNull else strip x)"
    proof (cases "removable x")
      case True
      then show ?thesis by simp
    next
      case False
      from fails_sequence [OF "1.prems" x] have nf: "\<not> fails x" .
      from strip_sound [OF nf False] "1.IH" [OF x False nf False] False
      show ?thesis by simp
    qed
  qed
  then show ?case by simp
next
  case (2 kvs)
  let ?kept = "filter (\<lambda>(k, x). \<not> removable x) kvs"
  have m: "\<not> removable (strip x) \<and> strip (strip x) = strip x" if "(k, x) \<in> set ?kept" for k x
  proof -
    from that have x: "(k, x) \<in> set kvs" "\<not> removable x" by auto
    from fails_mapping [OF "2.prems"(1) x(1)] have nf: "\<not> fails x" .
    from strip_sound [OF nf x(2)] "2.IH" [OF that refl nf x(2)] show ?thesis by simp
  qed
  have keep: "filter (\<lambda>(k, x). \<not> removable x) (map (\<lambda>(k, x). (k, strip x)) ?kept)
            = map (\<lambda>(k, x). (k, strip x)) ?kept"
    by (rule filter_True) (use m in auto)
  have "map (\<lambda>(k, x). (k, strip x)) (map (\<lambda>(k, x). (k, strip x)) ?kept)
      = map (\<lambda>(k, x). (k, strip x)) ?kept"
    unfolding map_map
    by (intro map_cong refl) (use m in auto)
  with keep show ?case by simp
qed simp_all

text \<open>
  C5. The normalizer is idempotent: normalizing the result of a normalization gives that
  result again, and where the first normalization throws, so does the composition.
\<close>

theorem normalize_idempotent:
  "(case replaceNullsWithUndefined x of
      Inl e \<Rightarrow> Inl e
    | Inr y \<Rightarrow> replaceNullsWithUndefined y) = replaceNullsWithUndefined x"
  by (simp add: normalize_eq strip_sound strip_idem)

text \<open>
  C4. The claim has every removable node absent from the output. The code leaves them
  out of mappings, as for \<^verbatim>\<open>{a: null, b: "undefined", c: 1}\<close>, which
  normalizes to \<^verbatim>\<open>{c: 1}\<close>; in a sequence a null stays, and a removable string
  comes out as null, so that the output of the normalizer has removable nodes.
\<close>

theorem normalize_keeps_sequence_nodes:
  "replaceNullsWithUndefined
     (JObj [(''items'', JArr [JNull, JStr ''undefined'', JNum 1])])
       = Inr (JObj [(''items'', JArr [JNull, JNull, JNum 1])])
   \<and> removable JNull
   \<and> hasRemovableNode (JObj [(''items'', JArr [JNull, JNull, JNum 1])])
   \<and> replaceNullsWithUndefined
        (JObj [(''a'', JNull), (''b'', JStr ''undefined''), (''c'', JNum 1)])
       = Inr (JObj [(''c'', JNum 1)])"
  by code_simp

text \<open>
  C6. When the input itself is removable the serialization is \<^verbatim>\<open>undefined\<close>,
  which \<^verbatim>\<open>JSON.parse\<close> rejects: the normalizer throws a
  \<^verbatim>\<open>SyntaxError\<close>.
\<close>

theorem normalize_top_level:
  "removable x \<longrightarrow> replaceNullsWithUndefined x = Inl SyntaxError"
  by (simp add: normalize_eq removable_not_fails)

theorem normalize_top_level_witness:
  "removable (JStr ''undefined'')
   \<and> replaceNullsWithUndefined (JStr ''undefined'') = Inl SyntaxError"
  using normalize_top_level [of "JStr ''undefined''"] by simp

text \<open>
  C6 as written, with an empty result and no failure for a removable input, fails: for
  null the normalizer throws.
\<close>

theorem normalize_top_level_counterexample:
  "removable JNull \<and> replaceNullsWithUndefined JNull = Inl SyntaxError"
  by (simp add: normalize_eq)

section \<open>The YAML projection filters managed fields\<close>

lemma indexKey_not_managedFields: "indexKey i \<noteq> ''managedFields''"
  by (simp add: indexKey_def numberToString_not_literal)

lemma shown_index: "shown mf [indexKey i]"
  using indexKey_not_managedFields [of i] by (auto simp: shown_def)

lemma writeNode_mapping:
  "writeNode mf (JObj kvs) =
     JObj (map (\<lambda>(k, x). (k, writeNode mf x)) (filter (\<lambda>(k, x). shown mf [k]) kvs))"
proof -
  have "concat (map (\<lambda>(k, x). case yamlReplacer mf k x of
                                None \<Rightarrow> [] | Some v \<Rightarrow> [(k, writeNode mf v)]) kvs)
      = map (\<lambda>(k, x). (k, writeNode mf x)) (filter (\<lambda>(k, x). shown mf [k]) kvs)"
    by (induction kvs) (auto simp: yamlReplacer_def shown_def split: if_splits)
  then show ?thesis by simp
qed

lemma writeNode_sequence: "writeNode mf (JArr xs) = JArr (map (writeNode mf) xs)"
proof -
  have "map (\<lambda>(i, x). case yamlReplacer mf (indexKey i) x of
                         None \<Rightarrow> JNull | Some v \<Rightarrow> writeNode mf v)
          (zip [0..<length xs] xs)
      = map (\<lambda>(i, x). writeNode mf x) (zip [0..<length xs] xs)"
    by (intro map_cong refl) (auto simp: yamlReplacer_def indexKey_not_managedFields)
  also have "\<dots> = map (writeNode mf) xs" by (rule map_indexed)
  finally show ?thesis by simp
qed

declare writeNode.simps(1,2) [simp del]

lemma writeNode_all: "writeNode True v = v"
proof (induction v)
  case (JArr xs)
  then show ?case by (simp add: writeNode_sequence map_idI)
next
  case (JObj kvs)
  have "map (\<lambda>(k, x). (k, writeNode True x)) kvs = kvs"
    using JObj by (intro map_idI) (auto simp: snds.simps)
  then show ?case by (simp add: writeNode_mapping shown_def)
qed simp_all

lemma writeNode_no_managedFields: "\<not> hasKey ''managedFields'' (writeNode False v)"
proof (induction v)
  case (JArr xs)
  then show ?case by (simp add: writeNode_sequence list_ex_iff)
next
  case (JObj kvs)
  then show ?case by (auto simp: writeNode_mapping shown_def list_ex_iff snds.simps)
qed simp_all

lemma jsYaml_dump_eq: "jsYaml_dump mf v = Some (writeNode mf v)"
  by (simp add: jsYaml_dump_def yamlReplacer_def)

text \<open>
  C7. With managed fields hidden the YAML document has no key \<^verbatim>\<open>managedFields\<close>
  at any depth; with managed fields shown the document is the input, every field kept.
\<close>

theorem yaml_managedFields:
  "(\<exists>d. jsYaml_dump False v = Some d \<and> \<not> hasKey ''managedFields'' d)
   \<and> jsYaml_dump True v = Some v"
  by (simp add: jsYaml_dump_eq writeNode_no_managedFields writeNode_all)

lemma filter_under_key:
  "filter (shown mf) (map ((#) k) ps) =
     (if shown mf [k] then map ((#) k) (filter (shown mf) ps) else [])"
  by (induction ps) (auto simp: shown_def [abs_def])

lemma member_paths:
  assumes "keyPaths (writeNode mf x) = filter (shown mf) (keyPaths x)"
  shows "filter (shown mf) ([k] # map ((#) k) (keyPaths x)) =
     (if shown mf [k] then [k] # map ((#) k) (keyPaths (writeNode mf x)) else [])"
  using assms by (simp add: filter_under_key)

lemma keyPaths_writeNode: "keyPaths (writeNode mf v) = filter (shown mf) (keyPaths v)"
proof (induction v)
  case (JArr xs)
  have z: "zip [0..<length xs] (map (writeNode mf) xs)
      = map (\<lambda>(i, x). (i, writeNode mf x)) (zip [0..<length xs] xs)"
    by (simp add: zip_map2)
  have "concat (map (\<lambda>(i, x). [indexKey i] # map ((#) (indexKey i)) (keyPaths x))
          (map (\<lambda>(i, x). (i, writeNode mf x)) (zip [0..<length xs] xs)))
      = concat (map (\<lambda>(i, x).
                  filter (shown mf) ([indexKey i] # map ((#) (indexKey i)) (keyPaths x)))
          (zip [0..<length xs] xs))"
    unfolding map_map
  proof (intro arg_cong [where f = concat] map_cong refl)
    fix ix assume "ix \<in> set (zip [0..<length xs] xs)"
    then have "snd ix \<in> set xs" by (metis set_zip_rightD prod.collapse)
    from member_paths [OF JArr [OF this], of "indexKey (fst ix)"] show
      "((\<lambda>(i, x). [indexKey i] # map ((#) (indexKey i)) (keyPaths x)) \<circ>
         (\<lambda>(i, x). (i, writeNode mf x))) ix
       = (case ix of (i, x) \<Rightarrow>
           filter (shown mf) ([indexKey i] # map ((#) (indexKey i)) (keyPaths x)))"
      by (simp add: case_prod_unfold shown_index del: filter.simps)
  qed
  then show ?case
    by (simp add: writeNode_sequence z filter_concat comp_def case_prod_unfold
        del: filter.simps)
next
  case (JObj kvs)
  have "concat (map (\<lambda>(k, x). [k] # map ((#) k) (keyPaths x))
          (map (\<lambda>(k, x). (k, writeNode mf x)) (filter (\<lambda>(k, x). shown mf [k]) kvs)))
      = concat (map (\<lambda>(k, x). filter (shown mf) ([k] # map ((#) k) (keyPaths x))) kvs)"
    using JObj
  proof (induction kvs)
    case Nil
    show ?case by simp
  next
    case (Cons kv kvs)
    obtain k x where kv: "kv = (k, x)" by (cases kv)
    have ih: "keyPaths (writeNode mf x) = filter (shown mf) (keyPaths x)"
      using Cons.prems [of kv x] kv by (simp add: snds.simps)
    have rest: "concat (map (\<lambda>(k, x). [k] # map ((#) k) (keyPaths x))
          (map (\<lambda>(k, x). (k, writeNode mf x)) (filter (\<lambda>(k, x). shown mf [k]) kvs)))
      = concat (map (\<lambda>(k, x). filter (shown mf) ([k] # map ((#) k) (keyPaths x))) kvs)"
      by (rule Cons.IH) (use Cons.prems in auto)
    show ?case
    proof (cases "shown mf [k]")
      case True
      with member_paths [OF ih, of k] rest kv show ?thesis
        by (simp del: filter.simps) simp
    next
      case False
      with member_paths [OF ih, of k] rest kv show ?thesis
        by (simp del: filter.simps) simp
    qed
  qed
  then show ?case
    by (simp add: writeNode_mapping filter_concat comp_def case_prod_unfold
        del: filter.simps)
qed simp_all

lemma ownPropertyKeys_insertion:
  "list_all (\<lambda>(k, v). \<not> isArrayIndex k) created \<Longrightarrow> ownPropertyKeys created = created"
proof -
  assume a: "list_all (\<lambda>(k, v). \<not> isArrayIndex k) created"
  have "filter (\<lambda>(k, v). isArrayIndex k) created = []"
    by (rule filter_False) (use a in \<open>auto simp: list_all_iff\<close>)
  moreover have "filter (\<lambda>(k, v). \<not> isArrayIndex k) created = created"
    by (rule filter_True) (use a in \<open>auto simp: list_all_iff\<close>)
  ultimately show ?thesis by (simp add: ownPropertyKeys_def)
qed

lemmas arrayIndex_eval =
  arrayIndex_def isArrayIndex_def indexOrder_def digitValue_def numberToString_def
  digits.simps digitChar_def

text \<open>
  C8. The YAML that is shown depends on the object and on the managed-fields flag, and
  on nothing else of the drawer. The paths of the document are the paths of the input
  in the input's order, all of them with managed fields shown, those that do not go
  through \<^verbatim>\<open>managedFields\<close> without. The order of a mapping's keys is that of
  \<^verbatim>\<open>Object.keys\<close>: for an object whose properties were created in a given
  order, the keys that are array indices come first, in ascending numeric order, and
  the other keys follow in the order of their creation; when no key is an array index,
  the keys are written in the order of their creation.
\<close>

theorem yaml_keys_in_order:
  "(isYaml s \<and> isYaml s' \<and> managedFields s = managedFields s' \<longrightarrow>
      drawerBody renderObject s obj = drawerBody renderObject' s' obj)
   \<and> (\<exists>d. jsYaml_dump mf v = Some d
        \<and> keyPaths d
            = filter (\<lambda>p. if mf then True else ''managedFields'' \<notin> set p) (keyPaths v))
   \<and> (\<exists>ms. jsYaml_dump mf (objectOf created) = Some (JObj ms)
        \<and> map fst ms
            = filter (\<lambda>k. if mf then True else k \<noteq> ''managedFields'')
                (map fst (sort_key (\<lambda>(k, v). indexOrder k)
                            (filter (\<lambda>(k, v). isArrayIndex k) created))
                 @ map fst (filter (\<lambda>(k, v). \<not> isArrayIndex k) created)))
   \<and> (list_all (\<lambda>(k, v). \<not> isArrayIndex k) created \<longrightarrow>
        (\<exists>ms. jsYaml_dump mf (objectOf created) = Some (JObj ms)
          \<and> map fst ms
              = filter (\<lambda>k. if mf then True else k \<noteq> ''managedFields'') (map fst created)))"
proof (intro conjI impI)
  assume "isYaml s \<and> isYaml s' \<and> managedFields s = managedFields s'"
  then show "drawerBody renderObject s obj = drawerBody renderObject' s' obj"
    by (simp add: drawerBody_def)
next
  show "\<exists>d. jsYaml_dump mf v = Some d
        \<and> keyPaths d
            = filter (\<lambda>p. if mf then True else ''managedFields'' \<notin> set p) (keyPaths v)"
    using keyPaths_writeNode [of mf v] by (simp add: jsYaml_dump_eq shown_def [abs_def])
next
  have k: "map fst (map (\<lambda>(k, x). (k, writeNode mf x)) (filter (\<lambda>(k, x). shown mf [k]) kvs))
      = filter (\<lambda>k. if mf then True else k \<noteq> ''managedFields'') (map fst kvs)" for kvs
    by (induction kvs) (auto simp: shown_def)
  show "\<exists>ms. jsYaml_dump mf (objectOf created) = Some (JObj ms)
        \<and> map fst ms
            = filter (\<lambda>k. if mf then True else k \<noteq> ''managedFields'')
                (map fst (sort_key (\<lambda>(k, v). indexOrder k)
                            (filter (\<lambda>(k, v). isArrayIndex k) created))
                 @ map fst (filter (\<lambda>(k, v). \<not> isArrayIndex k) created))"
    using k [of "ownPropertyKeys created"]
    by (simp add: jsYaml_dump_eq objectOf_def writeNode_mapping ownPropertyKeys_def)
  assume "list_all (\<lambda>(k, v). \<not> isArrayIndex k) created"
  then have "ownPropertyKeys created = created" by (rule ownPropertyKeys_insertion)
  with k [of created]
  show "\<exists>ms. jsYaml_dump mf (objectOf created) = Some (JObj ms)
          \<and> map fst ms
              = filter (\<lambda>k. if mf then True else k \<noteq> ''managedFields'') (map fst created)"
    by (simp add: jsYaml_dump_eq objectOf_def writeNode_mapping)
qed

theorem yaml_keys_in_order_witness:
  "isYaml \<lparr>isYaml = True, managedFields = False\<rparr>
   \<and> drawerBody (\<lambda>v. v) \<lparr>isYaml = True, managedFields = False\<rparr> (JObj [(''kind'', JStr ''Pod'')])
      = drawerBody (\<lambda>v. JNull) \<lparr>isYaml = True, managedFields = False\<rparr> (JObj [(''kind'', JStr ''Pod'')])
   \<and> list_all (\<lambda>(k, v). \<not> isArrayIndex k)
        [(''kind'', JStr ''Pod''), (''managedFields'', JArr []), (''apiVersion'', JStr ''v1'')]
   \<and> (\<exists>ms. jsYaml_dump False
          (objectOf [(''kind'', JStr ''Pod''), (''managedFields'', JArr []), (''apiVersion'', JStr ''v1'')])
          = Some (JObj ms)
        \<and> map fst ms = [''kind'', ''apiVersion''])"
proof -
  have n: "list_all (\<lambda>(k, v). \<not> isArrayIndex k)
        [(''kind'', JStr ''Pod''), (''managedFields'', JArr []), (''apiVersion'', JStr ''v1'')]"
    by (simp add: arrayIndex_eval)
  from n yaml_keys_in_order
    [of "\<lparr>isYaml = True, managedFields = False\<rparr>" "\<lparr>isYaml = True, managedFields = False\<rparr>"
        "\<lambda>v. v" "JObj [(''kind'', JStr ''Pod'')]" "\<lambda>v. JNull" False JNull
        "[(''kind'', JStr ''Pod''), (''managedFields'', JArr []), (''apiVersion'', JStr ''v1'')]"]
  show ?thesis by simp
qed

text \<open>
  C8 as written, with the keys in insertion order, fails: an object created with the
  keys \<^verbatim>\<open>b\<close>, \<^verbatim>\<open>1\<close>, \<^verbatim>\<open>a\<close> is written with the keys
  \<^verbatim>\<open>1\<close>, \<^verbatim>\<open>b\<close>, \<^verbatim>\<open>a\<close>.
\<close>

theorem yaml_insertion_order_counterexample:
  "jsYaml_dump True (objectOf [(''b'', JNum 1), (''1'', JNum 2), (''a'', JNum 3)])
     = Some (JObj [(''1'', JNum 2), (''b'', JNum 1), (''a'', JNum 3)])
   \<and> map fst [(''1'', JNum 2), (''b'', JNum 1), (''a'', JNum 3)]
       \<noteq> map fst [(''b'', JNum 1), (''1'', JNum 2), (''a'', JNum 3)]"
  by (simp add: jsYaml_dump_eq writeNode_all objectOf_def ownPropertyKeys_def arrayIndex_eval)

section \<open>The cluster link at the boundary\<close>

lemma sublist_middle: "sublist xs (ps @ xs @ ss)"
  by (auto simp: sublist_def)

lemma formatOptions_name:
  "formatOptions (cluster\<lparr>cluster_name := n\<rparr>) obj k = formatOptions cluster obj k"
  by (simp add: formatOptions_def)

text \<open>
  C1. The result never has both fields non-empty. The link is non-empty exactly when
  \<^verbatim>\<open>formatClusterLink\<close> returned a non-empty link, and the error message is
  non-empty exactly when \<^verbatim>\<open>formatClusterLink\<close> threw an error that has a
  message or a name; in every other case both fields are empty.
\<close>

theorem tryFormatClusterLink_fields:
  "\<exists>r. tryFormatClusterLink formatter options = Inr r
     \<and> (clusterLink r = [] \<or> errorMessage r = [])
     \<and> (clusterLink r \<noteq> [] \<longleftrightarrow> (\<exists>link. formatter options = Inr link \<and> link \<noteq> []))
     \<and> (errorMessage r \<noteq> [] \<longleftrightarrow>
          (\<exists>err. formatter options = Inl err \<and> \<not> (errMessage err = [] \<and> errName err = [])))"
  by (cases "formatter options") (auto simp: tryFormatClusterLink_def errorToString_def)

theorem tryFormatClusterLink_fields_witness:
  "tryFormatClusterLink (formatClusterLink exampleFormatters)
       (formatOptions (exampleCluster None) (JObj []) ''Pod'')
     = Inr \<lparr>clusterLink = ''https://k8s.example/dashboard'', errorMessage = []\<rparr>
   \<and> (\<exists>r. tryFormatClusterLink (formatClusterLink exampleFormatters)
       (formatOptions (exampleCluster (Some ''lens'')) (JObj []) ''Pod'') = Inr r
        \<and> clusterLink r = [] \<and> errorMessage r \<noteq> [])"
proof -
  let ?f = "formatClusterLink exampleFormatters"
  let ?o = "formatOptions (exampleCluster None) (JObj []) ''Pod''"
  let ?o' = "formatOptions (exampleCluster (Some ''lens'')) (JObj []) ''Pod''"
  have out: "?f ?o = Inr ''https://k8s.example/dashboard''"
    by (simp add: formatClusterLink_def formatOptions_def dashboardAppOrStandard_def
        exampleFormatters_def exampleCluster_def)
  have l: "\<exists>err. ?f ?o' = Inl err \<and> errMessage err \<noteq> []"
    by (simp add: formatClusterLink_def formatOptions_def dashboardAppOrStandard_def
        exampleFormatters_def exampleCluster_def)
  from tryFormatClusterLink_fields [of ?f ?o] tryFormatClusterLink_fields [of ?f ?o'] out l
  show ?thesis
    by (auto simp: tryFormatClusterLink_def)
qed

text \<open>
  C1 as written, with exactly one field non-empty in every result, fails: when
  \<^verbatim>\<open>formatClusterLink\<close> returns the empty string, both fields are empty.
\<close>

theorem tryFormatClusterLink_both_empty_counterexample:
  "tryFormatClusterLink emptyLinkFormatter
       (formatOptions (exampleCluster None) (JObj []) ''Pod'')
     = Inr \<lparr>clusterLink = [], errorMessage = []\<rparr>"
  by (simp add: tryFormatClusterLink_def emptyLinkFormatter_def)

text \<open>
  C2. \<^verbatim>\<open>tryFormatClusterLink\<close> never throws: whatever
  \<^verbatim>\<open>formatClusterLink\<close> does with the options, a result is returned, and when
  \<^verbatim>\<open>formatClusterLink\<close> throws, the result has an empty link and the error's
  message, or the error's string form when it has no message.
\<close>

theorem tryFormatClusterLink_never_throws:
  "\<exists>r. tryFormatClusterLink formatter options = Inr r
     \<and> (case formatter options of
          Inr link \<Rightarrow> r = \<lparr>clusterLink = link, errorMessage = []\<rparr>
        | Inl err \<Rightarrow> clusterLink r = []
            \<and> errorMessage r = (if errMessage err \<noteq> [] then errMessage err
                                 else errorToString err))"
  by (simp add: tryFormatClusterLink_def split: sum.splits)

text \<open>
  C3. When the dashboard application is not supported, the result has an empty link and
  a non-empty error message. The message is the same whatever the cluster is called,
  since the name is not among the options; the cluster's name is in the message of the
  warning panel, which is rendered with the error message below it.
\<close>

theorem format_unsupported_app:
  assumes "map_of clusterLinksFormatters (dashboardAppOrStandard (cluster_dashboardApp cluster))
             = None"
  shows "\<exists>r. tryFormatClusterLink (formatClusterLink clusterLinksFormatters)
               (formatOptions cluster obj k) = Inr r
           \<and> clusterLink r = [] \<and> errorMessage r \<noteq> []
           \<and> tryFormatClusterLink (formatClusterLink clusterLinksFormatters)
               (formatOptions (cluster\<lparr>cluster_name := n\<rparr>) obj k) = Inr r
           \<and> (\<exists>p. errorPanelShown cluster r = Some p
                  \<and> sublist (cluster_name cluster) (message p)
                  \<and> children p = Some (''Errors: '' @ errorMessage r))"
proof -
  let ?app = "dashboardAppOrStandard (cluster_dashboardApp cluster)"
  let ?msg = "''Could not find Kubernetes dashboard app named '' @ [CHR 0x27] @ ?app @ [CHR 0x27]"
  let ?r = "\<lparr>clusterLink = [], errorMessage = ?msg\<rparr>"
  have f: "formatClusterLink clusterLinksFormatters (formatOptions cluster obj k)
             = Inl (Error ''Error'' ?msg)"
    using assms by (simp add: formatClusterLink_def formatOptions_def)
  have t: "tryFormatClusterLink (formatClusterLink clusterLinksFormatters)
             (formatOptions cluster obj k) = Inr ?r"
    by (simp add: tryFormatClusterLink_def f)
  have s: "sublist (cluster_name cluster) (message (ErrorPanel cluster (Some ?msg)))"
    unfolding ErrorPanel_def
    by (simp only: WarningPanel.simps append_assoc)
       (rule sublist_middle [where ps = "_ @ _", simplified append_assoc])
  show ?thesis
    by (rule exI [of _ ?r])
       (use t s in \<open>simp add: formatOptions_name errorPanelShown_def ErrorPanel_def\<close>)
qed

theorem format_unsupported_app_witness:
  "map_of exampleFormatters (dashboardAppOrStandard (cluster_dashboardApp (exampleCluster (Some ''lens''))))
     = None
   \<and> (\<exists>r. tryFormatClusterLink (formatClusterLink exampleFormatters)
               (formatOptions (exampleCluster (Some ''lens'')) (JObj []) ''Pod'') = Inr r
           \<and> clusterLink r = [] \<and> errorMessage r \<noteq> []
           \<and> tryFormatClusterLink (formatClusterLink exampleFormatters)
               (formatOptions ((exampleCluster (Some ''lens''))\<lparr>cluster_name := ''staging''\<rparr>) (JObj []) ''Pod'') = Inr r
           \<and> (\<exists>p. errorPanelShown (exampleCluster (Some ''lens'')) r = Some p
                  \<and> sublist ''prod'' (message p)))"
proof -
  have h: "map_of exampleFormatters
      (dashboardAppOrStandard (cluster_dashboardApp (exampleCluster (Some ''lens'')))) = None"
    by (simp add: exampleFormatters_def exampleCluster_def dashboardAppOrStandard_def)
  have n: "cluster_name (exampleCluster (Some ''lens'')) = ''prod''"
    by (simp add: exampleCluster_def)
  from format_unsupported_app [OF h, of "JObj []" "''Pod''" "''staging''"] h n
  show ?thesis by auto
qed

text \<open>
  C3 as written, with the cluster's name in the error message, fails: for the cluster
  \<^verbatim>\<open>prod\<close> with the unsupported application \<^verbatim>\<open>lens\<close> the message
  does not contain the name.
\<close>

theorem format_error_names_cluster_counterexample:
  "map_of exampleFormatters (dashboardAppOrStandard (cluster_dashboardApp (exampleCluster (Some ''lens''))))
     = None
   \<and> cluster_name (exampleCluster (Some ''lens'')) = ''prod''
   \<and> (case tryFormatClusterLink (formatClusterLink exampleFormatters)
              (formatOptions (exampleCluster (Some ''lens'')) (JObj []) ''Pod'') of
         Inl e \<Rightarrow> False
       | Inr r \<Rightarrow> clusterLink r = [] \<and> errorMessage r \<noteq> []
                 \<and> \<not> sublist ''prod'' (errorMessage r))"
  by (simp add: exampleFormatters_def exampleCluster_def dashboardAppOrStandard_def
      formatClusterLink_def formatOptions_def tryFormatClusterLink_def sublist_code prefix_code)

section \<open>The switches and the titles\<close>

text \<open>
  C9. Changing the YAML switch leaves the stored managed-fields flag as it is, so that
  it shows again when the YAML is shown again. While the structured display is shown,
  the managed-fields switch is rendered unchecked, changing it does not change the
  state, and the content does not depend on the flag.
\<close>

theorem managedFields_kept_in_structured_mode:
  "managedFields (onChange (YamlChange checked) s) = managedFields s
   \<and> managedFieldsSwitchChecked (onChange (YamlChange True) (onChange (YamlChange False) s))
       = managedFields s
   \<and> (\<not> isYaml s \<longrightarrow>
        \<not> managedFieldsSwitchChecked s
        \<and> onChange (ManagedFieldsChange checked) s = s
        \<and> drawerBody renderObject (s\<lparr>managedFields := b\<rparr>) obj = drawerBody renderObject s obj)"
  by (simp add: managedFieldsSwitchChecked_def drawerBody_def)

theorem managedFields_kept_in_structured_mode_witness:
  "managedFields (onChange (YamlChange False)
      (onChange (ManagedFieldsChange True) (onChange (YamlChange True) initialState)))
   \<and> \<not> isYaml (onChange (YamlChange False)
      (onChange (ManagedFieldsChange True) (onChange (YamlChange True) initialState)))
   \<and> \<not> managedFieldsSwitchChecked (onChange (YamlChange False)
      (onChange (ManagedFieldsChange True) (onChange (YamlChange True) initialState)))
   \<and> onChange (ManagedFieldsChange False) (onChange (YamlChange False)
      (onChange (ManagedFieldsChange True) (onChange (YamlChange True) initialState)))
     = \<lparr>isYaml = False, managedFields = True\<rparr>
   \<and> managedFieldsSwitchChecked (onChange (YamlChange True) (onChange (YamlChange False)
      (onChange (ManagedFieldsChange True) (onChange (YamlChange True) initialState))))"
  using managedFields_kept_in_structured_mode
    [of False "onChange (ManagedFieldsChange True) (onChange (YamlChange True) initialState)"]
    managedFields_kept_in_structured_mode
    [of False "onChange (YamlChange False)
      (onChange (ManagedFieldsChange True) (onChange (YamlChange True) initialState))"]
  by (simp add: managedFieldsSwitchChecked_def initialState_def)

text \<open>
  C10. For an object with no \<^verbatim>\<open>metadata\<close>, or whose \<^verbatim>\<open>metadata\<close> has no
  \<^verbatim>\<open>name\<close>, the heading of the drawer is \<^verbatim>\<open>unknown name\<close> and the
  button without children shows \<^verbatim>\<open>unknown object\<close>.
\<close>

theorem unknown_titles:
  assumes "map_of kvs ''metadata'' = None
           \<or> (\<exists>m. map_of kvs ''metadata'' = Some (JObj m) \<and> map_of m ''name'' = None)"
  shows "headerTitle (JObj kvs) = Inr (JStr ''unknown name'')
       \<and> triggerLabel None (JObj kvs) = Inr (Typography (JStr ''unknown object''))"
  using assms
  by (auto simp: headerTitle_def triggerLabel_def metadataName_def getProperty_def nullish_def)

theorem unknown_titles_witness:
  "map_of [(''kind'', JStr ''Pod''), (''metadata'', JObj [(''namespace'', JStr ''default'')])] ''metadata''
     = Some (JObj [(''namespace'', JStr ''default'')])
   \<and> map_of [(''namespace'', JStr ''default'')] ''name'' = None
   \<and> headerTitle (JObj [(''kind'', JStr ''Pod''), (''metadata'', JObj [(''namespace'', JStr ''default'')])])
       = Inr (JStr ''unknown name'')
   \<and> triggerLabel (None :: unit option)
        (JObj [(''kind'', JStr ''Pod''), (''metadata'', JObj [(''namespace'', JStr ''default'')])])
       = Inr (Typography (JStr ''unknown object''))"
proof -
  have h: "map_of [(''kind'', JStr ''Pod''), (''metadata'', JObj [(''namespace'', JStr ''default'')])] ''metadata''
      = None
    \<or> (\<exists>m. map_of [(''kind'', JStr ''Pod''), (''metadata'', JObj [(''namespace'', JStr ''default'')])] ''metadata''
          = Some (JObj m) \<and> map_of m ''name'' = None)"
    by simp
  from unknown_titles [OF h, where ?'a = unit] show ?thesis by simp
qed

end
